theory Spec2Isabelle
  imports Complex_Main "HOL-Library.Sublist"
begin

section \<open>Leaderboard submission parsing (app.py)\<close>

text \<open>
  The development embeds the validator, the metrics extractor and the submit handler of
  \<^verbatim>\<open>app.py\<close>. Conventions of the embedding:

  \<^item> A Python \<^verbatim>\<open>str\<close> is a \<^typ>\<open>string\<close>; one \<^typ>\<open>char\<close> stands for one code point
    below 256. Code points from 256 on (among them the further Unicode spaces and decimal
    digits that \<^verbatim>\<open>\s\<close> and \<^verbatim>\<open>\d\<close> accept) are outside the model.
  \<^item> \<^verbatim>\<open>p in s\<close> is \<^term>\<open>sublist p s\<close> and \<^verbatim>\<open>s.startswith(p)\<close> is \<^term>\<open>prefix p s\<close>.
  \<^item> A Python \<^verbatim>\<open>float\<close> is a \<^typ>\<open>real\<close>: decimal literals are read exactly and the
    arithmetic is exact, so rounding, overflow to infinity and underflow to zero of
    IEEE doubles are outside the model.
  \<^item> An exception is a value \<^term>\<open>Inl e\<close> of a sum type.
  \<^item> The three regular expressions of the source are embedded as the matchers the
    backtracking engine of \<^verbatim>\<open>re\<close> amounts to on them; each matcher names its pattern.
\<close>

subsection \<open>Constants\<close>

definition HEADER :: string where
  "HEADER = ''===== CS5220 HW3 LEADERBOARD SUBMISSION =====''"

definition FOOTER :: string where
  "FOOTER = ''===== END CS5220 HW3 LEADERBOARD SUBMISSION =====''"

datatype py_error = ValueError

subsection \<open>Character classes of the patterns\<close>

text \<open>\<^verbatim>\<open>\s\<close> of a \<^verbatim>\<open>str\<close> pattern, on code points below 256: TAB, LF, VT, FF, CR,
  the separators 0x1C to 0x1F, space, NEL (0x85) and the no-break space (0xA0).\<close>

definition is_space :: "char \<Rightarrow> bool" where
  "is_space c = (c \<in> set [CHR 0x09, CHR 0x0A, CHR 0x0B, CHR 0x0C, CHR 0x0D,
     CHR 0x1C, CHR 0x1D, CHR 0x1E, CHR 0x1F, CHR 0x20, CHR 0x85, CHR 0xA0])"

text \<open>\<^verbatim>\<open>\d\<close>: below 256 the decimal digits are the ASCII ones.\<close>

definition is_digit :: "char \<Rightarrow> bool" where
  "is_digit c = (c \<in> set ''0123456789'')"

text \<open>The class \<^verbatim>\<open>[\d.eE+-]\<close> of \<^verbatim>\<open>extract_times\<close>.\<close>

definition in_class :: "char \<Rightarrow> bool" where
  "in_class c = (is_digit c \<or> c \<in> set ''.eE+-'')"

subsection \<open>The section pattern: \<^verbatim>\<open>OPEN\n(.*?)CLOSE\<close> with \<^verbatim>\<open>re.DOTALL\<close>\<close>

text \<open>\<^verbatim>\<open>(.*?)CLOSE\<close> at the start of \<open>s\<close>: the lazy group grows one character at a time
  (any character, as \<^verbatim>\<open>DOTALL\<close> is set) until \<open>cls\<close> matches; the result is the group.\<close>

fun lazy_until :: "string \<Rightarrow> string \<Rightarrow> string option" where
  "lazy_until cls [] = (if prefix cls [] then Some [] else None)"
| "lazy_until cls (c # cs) =
     (if prefix cls (c # cs) then Some []
      else map_option ((#) c) (lazy_until cls cs))"

text \<open>The whole pattern anchored at the start of \<open>s\<close>; the result is \<^verbatim>\<open>group(1)\<close>.\<close>

definition match_section :: "string \<Rightarrow> string \<Rightarrow> string \<Rightarrow> string option" where
  "match_section opn cls s =
     (if prefix opn s then lazy_until cls (drop (length opn) s) else None)"

text \<open>\<^verbatim>\<open>re.search\<close>: the match at the leftmost start position that has one.\<close>

fun search_section :: "string \<Rightarrow> string \<Rightarrow> string \<Rightarrow> string option" where
  "search_section opn cls [] = match_section opn cls []"
| "search_section opn cls (c # cs) =
     (case match_section opn cls (c # cs) of
        Some g \<Rightarrow> Some g
      | None \<Rightarrow> search_section opn cls cs)"

definition SERIAL_OPEN :: string where
  "SERIAL_OPEN = ''--- SERIAL ---'' @ [CHR 0x0A]"

definition SERIAL_CLOSE :: string where
  "SERIAL_CLOSE = ''--- END SERIAL ---''"

definition SCALE_OPEN :: string where
  "SCALE_OPEN = ''--- SCALE_2M ---'' @ [CHR 0x0A]"

definition SCALE_CLOSE :: string where
  "SCALE_CLOSE = ''--- END SCALE_2M ---''"

subsection \<open>The timing pattern: \<^verbatim>\<open>Simulation Time\s*=\s*([\d.eE+-]+)\s*seconds\<close>\<close>

text \<open>
  The pattern anchored at the start of \<open>s\<close>; the result is the group and the text after
  the match. Every quantifier is greedy, and none can give a character back: what
  follows a run of \<^verbatim>\<open>\s\<close> (\<^verbatim>\<open>=\<close>, a class character, \<^verbatim>\<open>s\<close>) is not a space, and what
  follows the class run (a space or \<^verbatim>\<open>s\<close>) is not in the class. So each run is the
  longest one, and the match at a position is unique.
\<close>

definition match_time :: "string \<Rightarrow> (string \<times> string) option" where
  "match_time s =
     (if \<not> prefix ''Simulation Time'' s then None
      else let r1 = dropWhile is_space (drop (length ''Simulation Time'') s) in
      if \<not> prefix ''='' r1 then None
      else let r2 = dropWhile is_space (drop 1 r1);
               tok = takeWhile in_class r2;
               r3 = dropWhile is_space (dropWhile in_class r2) in
      if tok = [] \<or> \<not> prefix ''seconds'' r3 then None
      else Some (tok, drop (length ''seconds'') r3))"

lemma match_time_shorter:
  assumes "match_time s = Some (tok, rest)"
  shows "length rest < length s"
proof -
  have dw: "length (dropWhile P xs) \<le> length xs" for P and xs :: string
    by (induction xs) auto
  obtain r1 r2 r3 where
    r1: "r1 = dropWhile is_space (drop (length ''Simulation Time'') s)" and
    r2: "r2 = dropWhile is_space (drop 1 r1)" and
    r3: "r3 = dropWhile is_space (dropWhile in_class r2)" and
    rest: "rest = drop (length ''seconds'') r3" and
    p: "prefix ''Simulation Time'' s"
    using assms by (auto simp: match_time_def Let_def split: if_splits)
  have "length rest \<le> length r3" using rest by simp
  also have "\<dots> \<le> length r2"
    using dw [of is_space "dropWhile in_class r2"] dw [of in_class r2] by (simp add: r3)
  also have "\<dots> \<le> length r1"
    using dw [of is_space "drop 1 r1"] by (simp add: r2)
  also have "\<dots> \<le> length s - length ''Simulation Time''"
    using dw [of is_space "drop (length ''Simulation Time'') s"] by (simp add: r1)
  also have "\<dots> < length s" using p by (auto simp: prefix_def)
  finally show ?thesis .
qed

text \<open>\<^verbatim>\<open>re.findall\<close>: the groups of the non-overlapping matches, scanning left to right;
  after a match the scan resumes where the match ended.\<close>

function findall_times :: "string \<Rightarrow> string list" where
  "findall_times [] = []"
| "findall_times (c # cs) =
     (case match_time (c # cs) of
        Some (tok, rest) \<Rightarrow> tok # findall_times rest
      | None \<Rightarrow> findall_times cs)"
  by pat_completeness auto
termination
  by (relation "measure length") (auto dest: match_time_shorter)

subsection \<open>\<^verbatim>\<open>float\<close> on a token of the class\<close>

definition digit_val :: "char \<Rightarrow> nat" where
  "digit_val c = of_char c - of_char CHR ''0''"

definition digits_val :: "string \<Rightarrow> nat" where
  "digits_val ds = foldl (\<lambda>n c. 10 * n + digit_val c) 0 ds"

text \<open>An optional sign: whether it is a minus, and the text after it.\<close>

definition split_sign :: "string \<Rightarrow> bool \<times> string" where
  "split_sign s =
     (case s of
        [] \<Rightarrow> (False, [])
      | c # cs \<Rightarrow>
          if c = CHR ''-'' then (True, cs)
          else if c = CHR ''+'' then (False, cs)
          else (False, s))"

text \<open>
  \<^verbatim>\<open>float(m)\<close> for a token \<open>m\<close> over the class \<^verbatim>\<open>[\d.eE+-]\<close>, the only strings
  \<^verbatim>\<open>extract_times\<close> passes to it. Python accepts
  \<^verbatim>\<open>[sign] (digits [. [digits]] | . digits) [(e|E) [sign] digits]\<close>
  and raises \<^verbatim>\<open>ValueError\<close> on every other token over the class. (The further
  spellings \<^verbatim>\<open>float\<close> accepts, such as \<^verbatim>\<open>inf\<close>, \<^verbatim>\<open>nan\<close>, underscores and padding
  spaces, need characters outside the class.)
\<close>

definition py_float :: "string \<Rightarrow> py_error + real" where
  "py_float s =
     (let (neg, s1) = split_sign s;
          ip = takeWhile is_digit s1;
          s2 = dropWhile is_digit s1;
          fp = (if prefix ''.'' s2 then takeWhile is_digit (drop 1 s2) else []);
          s3 = (if prefix ''.'' s2 then dropWhile is_digit (drop 1 s2) else s2);
          m = (if neg then - 1 else 1) * real (digits_val (ip @ fp)) / 10 ^ length fp
      in if ip = [] \<and> fp = [] then Inl ValueError
         else if s3 = [] then Inr m
         else if prefix ''e'' s3 \<or> prefix ''E'' s3 then
           (let (eneg, ds) = split_sign (drop 1 s3)
            in if ds = [] \<or> \<not> list_all is_digit ds then Inl ValueError
               else if eneg then Inr (m / 10 ^ digits_val ds)
               else Inr (m * 10 ^ digits_val ds))
         else Inl ValueError)"

text \<open>The list comprehension \<^verbatim>\<open>[float(m) for m in ...]\<close>: the first token that
  \<^verbatim>\<open>float\<close> rejects raises.\<close>

fun float_each :: "string list \<Rightarrow> py_error + real list" where
  "float_each [] = Inr []"
| "float_each (m # ms) =
     (case py_float m of
        Inl e \<Rightarrow> Inl e
      | Inr x \<Rightarrow> (case float_each ms of Inl e \<Rightarrow> Inl e | Inr xs \<Rightarrow> Inr (x # xs)))"

definition extract_times :: "string \<Rightarrow> py_error + real list" where
  "extract_times section_text = float_each (findall_times section_text)"

subsection \<open>\<^verbatim>\<open>parse_output\<close>\<close>

type_synonym metrics = "string \<rightharpoonup> real"

text \<open>
  The dictionary \<^verbatim>\<open>metrics\<close> is threaded through the three blocks of the function, in
  the order of the source; an exception raised in a block leaves the function.
\<close>

text \<open>Block \<^verbatim>\<open># Parse SERIAL section\<close> (lines 60 to 64).\<close>

definition parse_serial :: "string \<Rightarrow> metrics \<Rightarrow> py_error + metrics" where
  "parse_serial raw_output m =
     (case search_section SERIAL_OPEN SERIAL_CLOSE raw_output of
        None \<Rightarrow> Inr m
      | Some sec \<Rightarrow>
          (case extract_times sec of
             Inl e \<Rightarrow> Inl e
           | Inr tms \<Rightarrow> Inr (if tms \<noteq> [] then m(''RS1e5'' \<mapsto> tms ! 0) else m)))"

text \<open>Block \<^verbatim>\<open># Parse SCALE_2M section\<close> (lines 68 to 79).\<close>

definition parse_scale_2m :: "string \<Rightarrow> metrics \<Rightarrow> py_error + metrics" where
  "parse_scale_2m raw_output m =
     (case search_section SCALE_OPEN SCALE_CLOSE raw_output of
        None \<Rightarrow> Inr m
      | Some sec \<Rightarrow>
          (case extract_times sec of
             Inl e \<Rightarrow> Inl e
           | Inr tms \<Rightarrow>
               Inr (if length tms \<ge> 3 then
                      (let t64 = tms ! 0; t128 = tms ! 1; t256 = tms ! 2;
                           m1 = m(''T_2M_64'' \<mapsto> t64, ''T_2M_128'' \<mapsto> t128,
                                  ''T_2M_256'' \<mapsto> t256);
                           m2 = (if t128 > 0 then m1(''PE1'' \<mapsto> t64 / (2 * t128)) else m1)
                       in if t256 > 0 then m2(''PE2'' \<mapsto> t128 / (2 * t256)) else m2)
                    else m)))"

text \<open>Block \<^verbatim>\<open># Compute overall score\<close> (lines 82 to 84).\<close>

definition compute_overall :: "metrics \<Rightarrow> metrics" where
  "compute_overall m =
     (if m ''PE1'' \<noteq> None \<and> m ''PE2'' \<noteq> None \<and> m ''RS1e5'' \<noteq> None
         \<and> the (m ''RS1e5'') > 0
      then (let rs = 1.0 / the (m ''RS1e5'')
            in m(''overall'' \<mapsto> the (m ''PE1'') * 0.4 + the (m ''PE2'') * 0.4 + rs * 0.2))
      else m)"

definition parse_output :: "string \<Rightarrow> py_error + metrics" where
  "parse_output raw_output =
     (case parse_serial raw_output Map.empty of
        Inl e \<Rightarrow> Inl e
      | Inr m1 \<Rightarrow>
          (case parse_scale_2m raw_output m1 of
             Inl e \<Rightarrow> Inl e
           | Inr m2 \<Rightarrow> Inr (compute_overall m2)))"

subsection \<open>The field pattern \<^verbatim>\<open>KEY:\s*(\S+)\<close> and \<^verbatim>\<open>validate_output\<close>\<close>

text \<open>
  The pattern anchored at the start of \<open>s\<close>; the result is the group. The run of
  \<^verbatim>\<open>\s\<close> is the longest one (giving a space back would leave \<^verbatim>\<open>\S\<close> facing a
  space), and so is the run of \<^verbatim>\<open>\S\<close>, which nothing follows in the pattern.
\<close>

definition match_field :: "string \<Rightarrow> string \<Rightarrow> string option" where
  "match_field key s =
     (if \<not> prefix key s then None
      else let tok = takeWhile (\<lambda>c. \<not> is_space c) (dropWhile is_space (drop (length key) s))
           in if tok = [] then None else Some tok)"

fun search_field :: "string \<Rightarrow> string \<Rightarrow> string option" where
  "search_field key [] = match_field key []"
| "search_field key (c # cs) =
     (case match_field key (c # cs) of
        Some tok \<Rightarrow> Some tok
      | None \<Rightarrow> search_field key cs)"

definition validate_output :: "string \<Rightarrow> bool \<times> string" where
  "validate_output raw_output =
     (if \<not> sublist HEADER raw_output then (False, ''Missing header marker'')
      else if \<not> sublist FOOTER raw_output then (False, ''Missing footer marker'')
      else case search_field ''LEADERBOARD_NAME:'' raw_output of
             None \<Rightarrow> (False, ''Missing LEADERBOARD_NAME'')
           | Some name \<Rightarrow> (True, name))"

text \<open>The names the specification gives the three failure reasons.\<close>

definition MissingHeader :: string where
  "MissingHeader = ''Missing header marker''"

definition MissingFooter :: string where
  "MissingFooter = ''Missing footer marker''"

definition MissingName :: string where
  "MissingName = ''Missing LEADERBOARD_NAME''"

subsection \<open>\<^verbatim>\<open>submit\<close>\<close>

text \<open>
  The table \<^verbatim>\<open>submissions\<close> is a map from the primary key \<^verbatim>\<open>name\<close> to the other
  columns; the column \<^verbatim>\<open>metrics\<close> holds the mapping itself rather than its JSON text.
  A response is the status code and the fields of the JSON object. The request body
  and the clock reading \<^verbatim>\<open>datetime.now(timezone.utc).isoformat()\<close> are parameters. An
  exception leaves the handler before \<^verbatim>\<open>db.execute\<close>, so the table is as it was.
\<close>

record submission =
  timestamp :: string
  raw_output :: string
  metrics :: metrics

type_synonym database = "string \<rightharpoonup> submission"

record response =
  status_code :: nat
  json :: "(string \<times> string) list"

definition submit :: "string \<Rightarrow> string \<Rightarrow> database \<Rightarrow> (py_error + response) \<times> database" where
  "submit now raw db =
     (case validate_output raw of
        (False, result) \<Rightarrow>
          (Inr \<lparr>status_code = 400, json = [(''error'', result)]\<rparr>, db)
      | (True, name) \<Rightarrow>
          (let ts = (case search_field ''TIMESTAMP:'' raw of Some t \<Rightarrow> t | None \<Rightarrow> now)
           in case parse_output raw of
                Inl e \<Rightarrow> (Inl e, db)
              | Inr m \<Rightarrow>
                  (Inr \<lparr>status_code = 200,
                        json = [(''status'', ''ok''), (''name'', name), (''timestamp'', ts)]\<rparr>,
                   db(name \<mapsto> \<lparr>timestamp = ts, raw_output = raw, metrics = m\<rparr>))))"

subsection \<open>Sample reports\<close>

text \<open>Inputs on which the theorems below are instantiated.\<close>

definition serial_lines :: string where
  "serial_lines = ''Simulation Time = 120.5 seconds\<newline>''"

definition scale_lines3 :: string where
  "scale_lines3 =
     ''Simulation Time = 64.2 seconds\<newline>Simulation Time = 30.1 seconds\<newline>'' @
     ''Simulation Time = 16.0 seconds\<newline>''"

definition scale_lines2 :: string where
  "scale_lines2 =
     ''Simulation Time = 64.2 seconds\<newline>Simulation Time = 30.1 seconds\<newline>''"

definition scale_lines0 :: string where
  "scale_lines0 =
     ''Simulation Time = 64.2 seconds\<newline>Simulation Time = 0 seconds\<newline>'' @
     ''Simulation Time = -1 seconds\<newline>''"

text \<open>The first scenario of the specification: one serial and three scaling timings.\<close>

definition report_full :: string where
  "report_full =
     SERIAL_OPEN @ serial_lines @ SERIAL_CLOSE @ ''\<newline>'' @
     SCALE_OPEN @ scale_lines3 @ SCALE_CLOSE @ ''\<newline>''"

text \<open>Two scaling timings only.\<close>

definition report_two :: string where
  "report_two =
     SERIAL_OPEN @ serial_lines @ SERIAL_CLOSE @ ''\<newline>'' @
     SCALE_OPEN @ scale_lines2 @ SCALE_CLOSE @ ''\<newline>''"

text \<open>Three scaling timings, the second zero and the third negative.\<close>

definition report_zero :: string where
  "report_zero =
     SERIAL_OPEN @ serial_lines @ SERIAL_CLOSE @ ''\<newline>'' @
     SCALE_OPEN @ scale_lines0 @ SCALE_CLOSE @ ''\<newline>''"

text \<open>A serial timing of zero before three scaling timings.\<close>

definition report_rs0 :: string where
  "report_rs0 =
     SERIAL_OPEN @ ''Simulation Time = 0 seconds\<newline>'' @ SERIAL_CLOSE @ ''\<newline>'' @
     SCALE_OPEN @ scale_lines3 @ SCALE_CLOSE @ ''\<newline>''"

text \<open>The serial marker followed by a space before the line break.\<close>

definition report_trailing :: string where
  "report_trailing =
     ''--- SERIAL ---'' @ '' \<newline>Simulation Time = 1 seconds\<newline>'' @ ''--- END SERIAL ---''"

text \<open>A serial section whose token \<^verbatim>\<open>1.2.3\<close> is in the class and is no float literal.\<close>

definition report_malformed :: string where
  "report_malformed = SERIAL_OPEN @ ''Simulation Time = 1.2.3 seconds\<newline>'' @ SERIAL_CLOSE"

text \<open>A complete submission around the first scenario, cut at its name field and at
  its serial section.\<close>

definition submission_head :: string where
  "submission_head =
     HEADER @ ''\<newline>LEADERBOARD_NAME: Alice-01!\<newline>TIMESTAMP: 2026-03-01T12:00:00Z\<newline>''"

definition submission_ok :: string where
  "submission_ok = submission_head @ report_full @ FOOTER @ ''\<newline>''"

definition submission_tail :: string where
  "submission_tail =
     ''\<newline>TIMESTAMP: 2026-03-01T12:00:00Z\<newline>'' @ report_full @ FOOTER @ ''\<newline>''"

definition report_tail :: string where
  "report_tail =
     ''\<newline>'' @ SCALE_OPEN @ scale_lines3 @ SCALE_CLOSE @ ''\<newline>'' @ FOOTER @ ''\<newline>''"

text \<open>Submissions without the footer, without a name token, and with the name right
  after the colon.\<close>

definition submission_no_footer :: string where
  "submission_no_footer = HEADER @ ''\<newline>LEADERBOARD_NAME: bob\<newline>''"

definition submission_no_name :: string where
  "submission_no_name =
     HEADER @ ''\<newline>'' @ FOOTER @ ''\<newline>LEADERBOARD_NAME: \<newline>''"

definition submission_tight :: string where
  "submission_tight = HEADER @ FOOTER @ ''LEADERBOARD_NAME:alice''"

text \<open>A table with one earlier row.\<close>

definition stored :: database where
  "stored =
     [''bob'' \<mapsto> \<lparr>timestamp = ''2026-02-01'', raw_output = ''earlier'', metrics = Map.empty\<rparr>]"

text \<open>The mappings \<^verbatim>\<open>parse_output\<close> returns on them (proved below).\<close>

definition full_metrics :: metrics where
  "full_metrics =
     [''RS1e5'' \<mapsto> 120.5, ''T_2M_64'' \<mapsto> 64.2, ''T_2M_128'' \<mapsto> 30.1, ''T_2M_256'' \<mapsto> 16,
      ''PE1'' \<mapsto> 64.2 / (2 * 30.1), ''PE2'' \<mapsto> 30.1 / (2 * 16),
      ''overall'' \<mapsto> 0.4 * (64.2 / (2 * 30.1)) + 0.4 * (30.1 / (2 * 16)) + 0.2 * (1 / 120.5)]"

definition two_metrics :: metrics where
  "two_metrics = [''RS1e5'' \<mapsto> 120.5]"

definition zero_metrics :: metrics where
  "zero_metrics =
     [''RS1e5'' \<mapsto> 120.5, ''T_2M_64'' \<mapsto> 64.2, ''T_2M_128'' \<mapsto> 0, ''T_2M_256'' \<mapsto> - 1]"

definition rs0_metrics :: metrics where
  "rs0_metrics =
     [''RS1e5'' \<mapsto> 0, ''T_2M_64'' \<mapsto> 64.2, ''T_2M_128'' \<mapsto> 30.1, ''T_2M_256'' \<mapsto> 16,
      ''PE1'' \<mapsto> 64.2 / (2 * 30.1), ''PE2'' \<mapsto> 30.1 / (2 * 16)]"

section \<open>Properties\<close>

subsection \<open>Occurrences of a marker and the section search\<close>

text \<open>
  \<^term>\<open>\<not> sublist p (a @ butlast p)\<close> says that in a text \<open>a @ p @ post\<close> no occurrence
  of \<open>p\<close> starts before position \<open>length a\<close>: the occurrence after \<open>a\<close> is the first one.
\<close>

lemma prefix_within:
  assumes "prefix p (a @ p @ post)" "a \<noteq> []"
  shows "sublist p (a @ butlast p)"
proof (cases "p = []")
  case True
  then show ?thesis by simp
next
  case False
  have len: "length p \<le> length (a @ butlast p)" using assms(2) False
    by (cases a) auto
  have "p = butlast p @ [last p]" using False by simp
  then have "a @ p @ post = (a @ butlast p) @ (last p # post)"
    by (metis append.assoc append_Cons append_Nil)
  then have "prefix p ((a @ butlast p) @ (last p # post))" using assms(1) by metis
  then have "prefix p (a @ butlast p)"
    using len by (metis prefix_length_prefix prefixI)
  then show ?thesis by (rule prefix_imp_sublist)
qed

lemma lazy_until_first:
  "\<not> sublist cls (g @ butlast cls) \<Longrightarrow> lazy_until cls (g @ cls @ post) = Some g"
proof (induction g)
  case Nil
  then have "cls \<noteq> []" by auto
  then show ?case by (cases cls) auto
next
  case (Cons a g)
  have "\<not> prefix cls ((a # g) @ cls @ post)"
    using prefix_within [of cls "a # g" post] Cons.prems by blast
  moreover have "\<not> sublist cls (g @ butlast cls)"
    using Cons.prems by (auto simp: sublist_Cons_right)
  ultimately show ?case using Cons.IH by simp
qed

lemma lazy_until_Some:
  "lazy_until cls s = Some g \<Longrightarrow> \<exists>post. s = g @ cls @ post"
proof (induction s arbitrary: g)
  case Nil
  then show ?case by (auto split: if_splits)
next
  case (Cons c s)
  then show ?case by (auto split: if_splits simp: prefix_def) 
qed

lemma lazy_until_None: "lazy_until cls s = None \<longleftrightarrow> \<not> sublist cls s"
  by (induction s) (auto simp: sublist_Cons_right)

lemma search_section_first:
  assumes "\<not> sublist opn (pre @ butlast opn)" "\<not> sublist cls (g @ butlast cls)"
  shows "search_section opn cls (pre @ opn @ g @ cls @ post) = Some g"
  using assms(1)
proof (induction pre)
  case Nil
  then have ne: "opn \<noteq> []" by auto
  have "match_section opn cls (opn @ g @ cls @ post) = Some g"
    using lazy_until_first [OF assms(2)] by (simp add: match_section_def)
  then show ?case using ne by (cases opn) auto
next
  case (Cons a pre)
  have "\<not> prefix opn ((a # pre) @ opn @ g @ cls @ post)"
    using prefix_within [of opn "a # pre" "g @ cls @ post"] Cons.prems by blast
  then have "match_section opn cls ((a # pre) @ opn @ g @ cls @ post) = None"
    by (simp add: match_section_def)
  moreover have "\<not> sublist opn (pre @ butlast opn)"
    using Cons.prems by (auto simp: sublist_Cons_right)
  ultimately show ?case using Cons.IH by simp
qed

lemma search_section_Some:
  "search_section opn cls s = Some g \<Longrightarrow> \<exists>pre post. s = pre @ opn @ g @ cls @ post"
proof (induction s)
  case Nil
  then show ?case
    by (auto simp: match_section_def prefix_def split: if_splits dest!: lazy_until_Some)
next
  case (Cons c s)
  show ?case
  proof (cases "match_section opn cls (c # s)")
    case None
    then obtain pre post where "s = pre @ opn @ g @ cls @ post" using Cons by auto
    then have "c # s = (c # pre) @ opn @ g @ cls @ post" by simp
    then show ?thesis by blast
  next
    case (Some g')
    then have g: "g' = g" using Cons.prems by simp
    from Some obtain r where r: "c # s = opn @ r" and l: "lazy_until cls r = Some g'"
      by (auto simp: match_section_def prefix_def split: if_splits)
    from lazy_until_Some [OF l] obtain post where "r = g' @ cls @ post" by blast
    then have "c # s = [] @ opn @ g @ cls @ post" using r g by simp
    then show ?thesis by blast
  qed
qed

lemma not_sublist_butlast: "p \<noteq> [] \<Longrightarrow> \<not> sublist p (butlast p)"
proof
  assume ne: "p \<noteq> []" and sub: "sublist p (butlast p)"
  have "length p \<le> length (butlast p)" using sub by (rule sublist_length_le)
  moreover have "length (butlast p) = length p - 1" by simp
  moreover have "0 < length p" using ne by simp
  ultimately show False by arith
qed

lemma append_eq_longer:
  assumes "a @ r = b @ t" "length a \<le> length b"
  shows "\<exists>u. r = u @ t"
  using assms by (auto simp: append_eq_append_conv2)

lemma lazy_until_shortest:
  "cls \<noteq> [] \<Longrightarrow> lazy_until cls s = Some g \<Longrightarrow>
     (\<exists>post. s = g @ cls @ post) \<and> \<not> sublist cls (g @ butlast cls)"
proof (induction s arbitrary: g)
  case Nil
  then show ?case by (auto split: if_splits)
next
  case (Cons c s)
  show ?case
  proof (cases "prefix cls (c # s)")
    case True
    then have "g = []" using Cons.prems by simp
    then show ?thesis using True Cons.prems(1) by (auto simp: prefix_def not_sublist_butlast)
  next
    case False
    then obtain g' where g: "g = c # g'" and l: "lazy_until cls s = Some g'"
      using Cons.prems by auto
    from Cons.IH [OF Cons.prems(1) l] obtain post where s: "s = g' @ cls @ post"
      and n: "\<not> sublist cls (g' @ butlast cls)" by blast
    have "\<not> prefix cls (c # g' @ butlast cls)"
    proof
      assume "prefix cls (c # g' @ butlast cls)"
      moreover have "c # s = (c # g' @ butlast cls) @ (last cls # post)"
        using s Cons.prems(1) by simp
      ultimately have "prefix cls (c # s)" by (metis prefix_prefix)
      then show False using False by simp
    qed
    then have "\<not> sublist cls (g @ butlast cls)" using n g by (simp add: sublist_Cons_right)
    then show ?thesis using s g by simp
  qed
qed

lemma search_section_leftmost:
  assumes "opn \<noteq> []" "cls \<noteq> []"
  shows "search_section opn cls s = Some g \<Longrightarrow>
     \<exists>pre post. s = pre @ opn @ g @ cls @ post \<and> \<not> sublist opn (pre @ butlast opn) \<and>
        \<not> sublist cls (g @ butlast cls)"
proof (induction s)
  case Nil
  then show ?case using assms(1) by (auto simp: match_section_def)
next
  case (Cons c s)
  show ?case
  proof (cases "match_section opn cls (c # s)")
    case (Some g')
    then have g: "g' = g" using Cons.prems by simp
    from Some obtain r where r: "c # s = opn @ r" and l: "lazy_until cls r = Some g"
      unfolding g by (auto simp: match_section_def prefix_def split: if_splits)
    from lazy_until_shortest [OF assms(2) l] obtain post where "r = g @ cls @ post"
      and n: "\<not> sublist cls (g @ butlast cls)" by blast
    then have "c # s = [] @ opn @ g @ cls @ post \<and> \<not> sublist opn ([] @ butlast opn) \<and>
        \<not> sublist cls (g @ butlast cls)"
      using r assms(1) by (simp add: not_sublist_butlast)
    then show ?thesis by blast
  next
    case None
    then have "search_section opn cls s = Some g" using Cons.prems by simp
    from Cons.IH [OF this] obtain pre post where s: "s = pre @ opn @ g @ cls @ post"
      and no: "\<not> sublist opn (pre @ butlast opn)" and nc: "\<not> sublist cls (g @ butlast cls)"
      by blast
    have np: "\<not> prefix opn (c # s)"
    proof
      assume p: "prefix opn (c # s)"
      then obtain r where r: "c # s = opn @ r" by (auto simp: prefix_def)
      have "sublist cls r"
      proof -
        have "opn @ r = ((c # pre) @ opn) @ (g @ cls @ post)" using s r by simp
        then obtain u where "r = u @ g @ cls @ post"
          using append_eq_longer [of opn r "(c # pre) @ opn" "g @ cls @ post"] by auto
        then have "r = (u @ g) @ cls @ post" by simp
        then show ?thesis unfolding sublist_def by blast
      qed
      then have "lazy_until cls r \<noteq> None" by (simp add: lazy_until_None)
      then show False using None p r by (auto simp: match_section_def)
    qed
    have "\<not> sublist opn ((c # pre) @ butlast opn)"
    proof
      assume "sublist opn ((c # pre) @ butlast opn)"
      then have "prefix opn (c # pre @ butlast opn)" using no by (simp add: sublist_Cons_right)
      moreover have "c # s = (c # pre @ butlast opn) @ (last opn # g @ cls @ post)"
        using s assms(1) by simp
      ultimately have "prefix opn (c # s)" by (metis prefix_prefix)
      then show False using np by simp
    qed
    moreover have "c # s = (c # pre) @ opn @ g @ cls @ post" using s by simp
    ultimately show ?thesis using nc by blast
  qed
qed

text \<open>The section found is the one between the first opening delimiter and the first
  closing marker after it.\<close>

lemma search_section_iff:
  assumes "opn \<noteq> []" "cls \<noteq> []"
  shows "search_section opn cls s = Some g \<longleftrightarrow>
     (\<exists>pre post. s = pre @ opn @ g @ cls @ post \<and> \<not> sublist opn (pre @ butlast opn) \<and>
        \<not> sublist cls (g @ butlast cls))"
  using search_section_leftmost [OF assms] search_section_first by blast

subsection \<open>The field search\<close>

lemma list_all_takeWhile: "list_all P (takeWhile P xs)"
  by (induction xs) auto

lemma match_field_Some:
  "match_field key s = Some tok \<Longrightarrow>
     \<exists>ws rest. s = key @ ws @ tok @ rest \<and> list_all is_space ws \<and> tok \<noteq> []
        \<and> list_all (\<lambda>c. \<not> is_space c) tok \<and> (rest = [] \<or> is_space (hd rest))"
proof -
  assume a: "match_field key s = Some tok"
  then obtain r where s: "s = key @ r"
    by (auto simp: match_field_def prefix_def split: if_splits)
  let ?d = "dropWhile is_space r"
  have tok: "tok = takeWhile (\<lambda>c. \<not> is_space c) ?d" and ne: "tok \<noteq> []"
    using a s by (auto simp: match_field_def Let_def split: if_splits)
  have "s = key @ takeWhile is_space r @ tok @ dropWhile (\<lambda>c. \<not> is_space c) ?d"
    using s tok by simp
  moreover have "list_all is_space (takeWhile is_space r)"
    by (rule list_all_takeWhile)
  moreover have "list_all (\<lambda>c. \<not> is_space c) tok"
    unfolding tok by (rule list_all_takeWhile)
  moreover have "dropWhile (\<lambda>c. \<not> is_space c) ?d = [] \<or> is_space (hd (dropWhile (\<lambda>c. \<not> is_space c) ?d))"
    using hd_dropWhile [of "\<lambda>c. \<not> is_space c" ?d] by auto
  ultimately show ?thesis using ne by blast
qed

lemma match_field_at:
  assumes "list_all is_space ws" "tok \<noteq> []" "list_all (\<lambda>c. \<not> is_space c) tok"
    "rest = [] \<or> is_space (hd rest)"
  shows "match_field key (key @ ws @ tok @ rest) = Some tok"
proof -
  have d: "dropWhile is_space (ws @ tok @ rest) = tok @ rest"
    using assms(1,2,3) by (cases tok) (auto simp: list_all_iff dropWhile_append)
  have t: "takeWhile (\<lambda>c. \<not> is_space c) (tok @ rest) = tok"
    using assms(3,4) by (cases rest) (auto simp: list_all_iff takeWhile_append)
  show ?thesis using assms(2) by (simp add: match_field_def d t)
qed

lemma search_field_first:
  assumes "\<not> sublist key (pre @ butlast key)" "list_all is_space ws" "tok \<noteq> []"
    "list_all (\<lambda>c. \<not> is_space c) tok" "rest = [] \<or> is_space (hd rest)"
  shows "search_field key (pre @ key @ ws @ tok @ rest) = Some tok"
  using assms(1)
proof (induction pre)
  case Nil
  then have "key \<noteq> []" by auto
  then show ?case using match_field_at [OF assms(2-5), of key] by (cases key) auto
next
  case (Cons a pre)
  have "\<not> prefix key ((a # pre) @ key @ ws @ tok @ rest)"
    using prefix_within [of key "a # pre" "ws @ tok @ rest"] Cons.prems by blast
  then have "match_field key ((a # pre) @ key @ ws @ tok @ rest) = None"
    by (simp add: match_field_def)
  moreover have "\<not> sublist key (pre @ butlast key)"
    using Cons.prems by (auto simp: sublist_Cons_right)
  ultimately show ?case using Cons.IH by simp
qed

lemma search_field_Some:
  "search_field key s = Some tok \<Longrightarrow>
     \<exists>pre ws rest. s = pre @ key @ ws @ tok @ rest \<and> list_all is_space ws \<and> tok \<noteq> []
        \<and> list_all (\<lambda>c. \<not> is_space c) tok \<and> (rest = [] \<or> is_space (hd rest))"
proof (induction s)
  case Nil
  from match_field_Some [of key "[]" tok] Nil show ?case
    by (metis append_Nil search_field.simps(1))
next
  case (Cons c s)
  show ?case
  proof (cases "match_field key (c # s)")
    case None
    then obtain pre ws rest where "s = pre @ key @ ws @ tok @ rest" "list_all is_space ws"
      "tok \<noteq> []" "list_all (\<lambda>c. \<not> is_space c) tok" "rest = [] \<or> is_space (hd rest)"
      using Cons by auto
    then have "c # s = (c # pre) @ key @ ws @ tok @ rest \<and> list_all is_space ws \<and>
      tok \<noteq> [] \<and> list_all (\<lambda>c. \<not> is_space c) tok \<and> (rest = [] \<or> is_space (hd rest))" by simp
    then show ?thesis by blast
  next
    case (Some t)
    then have "t = tok" using Cons.prems by simp
    with Some match_field_Some [of key "c # s" tok] show ?thesis
      by (metis append_Nil)
  qed
qed

lemma search_field_found:
  assumes "list_all is_space ws" "\<not> is_space c"
  shows "search_field key (pre @ key @ ws @ c # rest) \<noteq> None"
proof (induction pre)
  case Nil
  have d: "dropWhile is_space (ws @ c # rest) = c # rest"
    using assms by (auto simp: list_all_iff dropWhile_append)
  have "match_field key (key @ ws @ c # rest) \<noteq> None"
    using assms(2) by (simp add: match_field_def d)
  then show ?case by (cases "key @ ws @ c # rest") auto
next
  case (Cons a pre)
  then show ?case by (auto split: option.splits)
qed

lemma search_field_None:
  "search_field key s = None \<longleftrightarrow>
     \<not> (\<exists>pre ws c rest. s = pre @ key @ ws @ c # rest \<and> list_all is_space ws \<and> \<not> is_space c)"
proof
  assume n: "search_field key s = None"
  show "\<not> (\<exists>pre ws c rest. s = pre @ key @ ws @ c # rest \<and> list_all is_space ws \<and> \<not> is_space c)"
    using search_field_found n by blast
next
  assume a: "\<not> (\<exists>pre ws c rest. s = pre @ key @ ws @ c # rest \<and> list_all is_space ws \<and> \<not> is_space c)"
  show "search_field key s = None"
  proof (rule ccontr)
    assume "search_field key s \<noteq> None"
    then obtain tok where "search_field key s = Some tok" by auto
    from search_field_Some [OF this] obtain pre ws rest where
      s: "s = pre @ key @ ws @ tok @ rest" and w: "list_all is_space ws" and ne: "tok \<noteq> []"
      and t: "list_all (\<lambda>c. \<not> is_space c) tok" by blast
    obtain c tl where tok: "tok = c # tl" using ne by (cases tok) auto
    then have "s = pre @ key @ ws @ c # (tl @ rest)" "\<not> is_space c" using s t by auto
    with w a show False by blast
  qed
qed

subsection \<open>The timing matcher\<close>

text \<open>
  The matcher finds exactly the decompositions the pattern describes; the group and the
  rest are determined by the text, so the order in which an engine explores the
  quantifiers does not matter.
\<close>

lemma run_append:
  assumes "list_all P ws" "r = [] \<or> \<not> P (hd r)"
  shows "takeWhile P (ws @ r) = ws" "dropWhile P (ws @ r) = r"
proof -
  have base: "takeWhile P r = [] \<and> dropWhile P r = r" using assms(2) by (cases r) auto
  show "takeWhile P (ws @ r) = ws" "dropWhile P (ws @ r) = r"
    using assms(1) base by (induction ws) auto
qed

lemma space_not_class: "is_space c \<Longrightarrow> \<not> in_class c"
  by (auto simp: is_space_def in_class_def is_digit_def)

lemma match_time_iff:
  "match_time s = Some (tok, rest) \<longleftrightarrow>
     (\<exists>w1 w2 w3. s = ''Simulation Time'' @ w1 @ ''='' @ w2 @ tok @ w3 @ ''seconds'' @ rest \<and>
        list_all is_space w1 \<and> list_all is_space w2 \<and> list_all is_space w3 \<and>
        tok \<noteq> [] \<and> list_all in_class tok)"
proof
  assume a: "match_time s = Some (tok, rest)"
  then obtain x where x: "s = ''Simulation Time'' @ x"
    by (auto simp: match_time_def prefix_def split: if_splits)
  define r1 where "r1 = dropWhile is_space x"
  from a x obtain y where y: "r1 = ''='' @ y"
    by (auto simp: match_time_def r1_def prefix_def Let_def split: if_splits)
  define r2 where "r2 = dropWhile is_space y"
  define r3 where "r3 = dropWhile is_space (dropWhile in_class r2)"
  have tok: "tok = takeWhile in_class r2" "tok \<noteq> []" and rest: "r3 = ''seconds'' @ rest"
    using a x y unfolding r3_def r2_def
    by (auto simp: match_time_def r1_def [symmetric] prefix_def Let_def split: if_splits)
  have "x = takeWhile is_space x @ ''='' @ y" using y r1_def by (metis takeWhile_dropWhile_id)
  moreover have "y = takeWhile is_space y @ r2" by (simp add: r2_def)
  moreover have "r2 = tok @ takeWhile is_space (dropWhile in_class r2) @ r3"
    by (simp add: tok r3_def)
  ultimately have "s = ''Simulation Time'' @ takeWhile is_space x @ ''='' @ takeWhile is_space y @
      tok @ takeWhile is_space (dropWhile in_class r2) @ ''seconds'' @ rest"
    using x rest by (metis append_assoc)
  moreover have "list_all in_class tok" unfolding tok by (rule list_all_takeWhile)
  ultimately show "\<exists>w1 w2 w3. s = ''Simulation Time'' @ w1 @ ''='' @ w2 @ tok @ w3 @ ''seconds'' @ rest \<and>
        list_all is_space w1 \<and> list_all is_space w2 \<and> list_all is_space w3 \<and>
        tok \<noteq> [] \<and> list_all in_class tok"
    using tok(2) list_all_takeWhile by blast
next
  assume "\<exists>w1 w2 w3. s = ''Simulation Time'' @ w1 @ ''='' @ w2 @ tok @ w3 @ ''seconds'' @ rest \<and>
        list_all is_space w1 \<and> list_all is_space w2 \<and> list_all is_space w3 \<and>
        tok \<noteq> [] \<and> list_all in_class tok"
  then obtain w1 w2 w3 where s: "s = ''Simulation Time'' @ w1 @ ''='' @ w2 @ tok @ w3 @ ''seconds'' @ rest"
    and w: "list_all is_space w1" "list_all is_space w2" "list_all is_space w3"
    and t: "tok \<noteq> []" "list_all in_class tok" by blast
  have d1: "dropWhile is_space (w1 @ ''='' @ w2 @ tok @ w3 @ ''seconds'' @ rest)
      = ''='' @ w2 @ tok @ w3 @ ''seconds'' @ rest"
    by (rule run_append(2) [OF w(1)]) (simp add: is_space_def)
  have "\<not> is_space (hd tok)" using t by (cases tok) (auto dest: space_not_class)
  then have d2: "dropWhile is_space (w2 @ tok @ w3 @ ''seconds'' @ rest) = tok @ w3 @ ''seconds'' @ rest"
    using t(1) by (intro run_append(2) [OF w(2)]) simp
  have nc: "\<not> in_class (hd (w3 @ ''seconds'' @ rest))"
    using w(3) by (cases w3) (auto dest: space_not_class simp: in_class_def is_digit_def)
  have d3: "takeWhile in_class (tok @ w3 @ ''seconds'' @ rest) = tok"
    "dropWhile in_class (tok @ w3 @ ''seconds'' @ rest) = w3 @ ''seconds'' @ rest"
    using run_append [OF t(2), of "w3 @ ''seconds'' @ rest"] nc by simp_all
  have d4: "dropWhile is_space (w3 @ ''seconds'' @ rest) = ''seconds'' @ rest"
    by (rule run_append(2) [OF w(3)]) (simp add: is_space_def)
  show "match_time s = Some (tok, rest)"
    unfolding match_time_def s using d1 d2 d3 d4 t(1) by (simp add: Let_def)
qed

subsection \<open>The blocks of \<^verbatim>\<open>parse_output\<close>\<close>

lemma parse_serial_other:
  "parse_serial raw m = Inr m' \<Longrightarrow> k \<noteq> ''RS1e5'' \<Longrightarrow> m' k = m k"
  by (auto simp: parse_serial_def split: option.splits sum.splits if_splits)

lemma parse_scale_2m_other:
  "parse_scale_2m raw m = Inr m' \<Longrightarrow>
     k \<notin> {''T_2M_64'', ''T_2M_128'', ''T_2M_256'', ''PE1'', ''PE2''} \<Longrightarrow> m' k = m k"
  by (auto simp: parse_scale_2m_def Let_def split: option.splits sum.splits if_splits)

lemma compute_overall_other: "k \<noteq> ''overall'' \<Longrightarrow> compute_overall m k = m k"
  by (simp add: compute_overall_def Let_def)

lemma compute_overall_key:
  "m ''overall'' = None \<Longrightarrow>
   compute_overall m ''overall'' = Some v \<longleftrightarrow>
     (\<exists>pe1 pe2 rs. m ''PE1'' = Some pe1 \<and> m ''PE2'' = Some pe2 \<and> m ''RS1e5'' = Some rs \<and> rs > 0
        \<and> v = 0.4 * pe1 + 0.4 * pe2 + 0.2 * (1.0 / rs))"
  by (auto simp: compute_overall_def Let_def)

lemma parse_output_Inr:
  "parse_output raw = Inr m \<longleftrightarrow>
     (\<exists>m1 m2. parse_serial raw Map.empty = Inr m1 \<and> parse_scale_2m raw m1 = Inr m2
        \<and> m = compute_overall m2)"
  by (auto simp: parse_output_def split: sum.splits)

lemma parse_scale_2m_enough:
  assumes "parse_scale_2m text m0 = Inr m"
    "search_section SCALE_OPEN SCALE_CLOSE text = Some sec" "extract_times sec = Inr tms"
    "3 \<le> length tms"
  shows "m ''T_2M_64'' = Some (tms ! 0)" "m ''T_2M_128'' = Some (tms ! 1)"
    "m ''T_2M_256'' = Some (tms ! 2)"
    "m ''PE1'' = (if 0 < tms ! 1 then Some (tms ! 0 / (2 * tms ! 1)) else m0 ''PE1'')"
    "m ''PE2'' = (if 0 < tms ! 2 then Some (tms ! 1 / (2 * tms ! 2)) else m0 ''PE2'')"
  using assms by (auto simp: parse_scale_2m_def Let_def)

lemma parse_scale_2m_short:
  assumes "parse_scale_2m text m0 = Inr m"
    "search_section SCALE_OPEN SCALE_CLOSE text = None \<or>
     (\<exists>sec tms. search_section SCALE_OPEN SCALE_CLOSE text = Some sec \<and>
        extract_times sec = Inr tms \<and> length tms < 3)"
  shows "m = m0"
  using assms by (auto simp: parse_scale_2m_def Let_def)

lemma parse_scale_2m_cases:
  assumes "parse_scale_2m text m0 = Inr m"
  shows "(search_section SCALE_OPEN SCALE_CLOSE text = None \<or>
          (\<exists>sec tms. search_section SCALE_OPEN SCALE_CLOSE text = Some sec \<and>
             extract_times sec = Inr tms \<and> length tms < 3))
       \<or> (\<exists>sec tms. search_section SCALE_OPEN SCALE_CLOSE text = Some sec \<and>
             extract_times sec = Inr tms \<and> 3 \<le> length tms)"
proof (cases "search_section SCALE_OPEN SCALE_CLOSE text")
  case None
  then show ?thesis by simp
next
  case (Some sec)
  then obtain tms where "extract_times sec = Inr tms"
    using assms by (auto simp: parse_scale_2m_def split: sum.splits)
  with Some show ?thesis by (cases "length tms < 3") auto
qed

lemma parse_serial_empty:
  assumes "parse_serial text Map.empty = Inr m" "k \<noteq> ''RS1e5''"
  shows "m k = None"
  using parse_serial_other [OF assms] by simp

lemma parse_output_enough:
  assumes "parse_output raw = Inr m"
    "search_section SCALE_OPEN SCALE_CLOSE raw = Some sec" "extract_times sec = Inr tms"
    "3 \<le> length tms"
  shows "m ''T_2M_64'' = Some (tms ! 0)" "m ''T_2M_128'' = Some (tms ! 1)"
    "m ''T_2M_256'' = Some (tms ! 2)"
    "m ''PE1'' = (if 0 < tms ! 1 then Some (tms ! 0 / (2 * tms ! 1)) else None)"
    "m ''PE2'' = (if 0 < tms ! 2 then Some (tms ! 1 / (2 * tms ! 2)) else None)"
proof -
  obtain m1 m2 where s: "parse_serial raw Map.empty = Inr m1"
    and c: "parse_scale_2m raw m1 = Inr m2" and m: "m = compute_overall m2"
    using assms(1) by (auto simp: parse_output_Inr)
  have none: "m1 k = None" if "k \<noteq> ''RS1e5''" for k
    using parse_serial_empty [OF s that] .
  note e = parse_scale_2m_enough [OF c assms(2-4)]
  show "m ''T_2M_64'' = Some (tms ! 0)" using e(1) by (simp add: m compute_overall_other)
  show "m ''T_2M_128'' = Some (tms ! 1)" using e(2) by (simp add: m compute_overall_other)
  show "m ''T_2M_256'' = Some (tms ! 2)" using e(3) by (simp add: m compute_overall_other)
  show "m ''PE1'' = (if 0 < tms ! 1 then Some (tms ! 0 / (2 * tms ! 1)) else None)"
    using e(4) by (simp add: m compute_overall_other none)
  show "m ''PE2'' = (if 0 < tms ! 2 then Some (tms ! 1 / (2 * tms ! 2)) else None)"
    using e(5) by (simp add: m compute_overall_other none)
qed

lemma parse_output_short:
  assumes "parse_output raw = Inr m"
    "search_section SCALE_OPEN SCALE_CLOSE raw = None \<or>
     (\<exists>sec tms. search_section SCALE_OPEN SCALE_CLOSE raw = Some sec \<and>
        extract_times sec = Inr tms \<and> length tms < 3)"
  shows "m k = None \<or> k = ''RS1e5''"
proof -
  obtain m1 m2 where s: "parse_serial raw Map.empty = Inr m1"
    and c: "parse_scale_2m raw m1 = Inr m2" and m: "m = compute_overall m2"
    using assms(1) by (auto simp: parse_output_Inr)
  have m2: "m2 = m1" using parse_scale_2m_short [OF c assms(2)] .
  have none: "m1 k = None" if "k \<noteq> ''RS1e5''" for k
    using parse_serial_empty [OF s that] .
  have "compute_overall m1 = m1" by (simp add: compute_overall_def none)
  then show ?thesis using none by (auto simp: m m2)
qed

lemma parse_output_scanned:
  assumes "parse_output raw = Inr m"
  shows "(search_section SCALE_OPEN SCALE_CLOSE raw = None \<or>
          (\<exists>sec tms. search_section SCALE_OPEN SCALE_CLOSE raw = Some sec \<and>
             extract_times sec = Inr tms \<and> length tms < 3))
       \<or> (\<exists>sec tms. search_section SCALE_OPEN SCALE_CLOSE raw = Some sec \<and>
             extract_times sec = Inr tms \<and> 3 \<le> length tms)"
proof -
  obtain m1 m2 where c: "parse_scale_2m raw m1 = Inr m2"
    using assms by (auto simp: parse_output_Inr)
  show ?thesis using parse_scale_2m_cases [OF c] .
qed

lemma parse_output_serial:
  assumes "parse_output raw = Inr m"
    "search_section SERIAL_OPEN SERIAL_CLOSE raw = Some sec" "extract_times sec = Inr (v # vs)"
  shows "m ''RS1e5'' = Some v"
proof -
  obtain m1 m2 where s: "parse_serial raw Map.empty = Inr m1"
    and c: "parse_scale_2m raw m1 = Inr m2" and m: "m = compute_overall m2"
    using assms(1) by (auto simp: parse_output_Inr)
  have "m1 ''RS1e5'' = Some v" using s assms(2,3) by (auto simp: parse_serial_def)
  then have "m2 ''RS1e5'' = Some v" using parse_scale_2m_other [OF c, of "''RS1e5''"] by simp
  then show ?thesis by (simp add: m compute_overall_other)
qed

subsection \<open>When \<^verbatim>\<open>parse_output\<close> raises\<close>

text \<open>
  Every token the scan hands to \<^verbatim>\<open>float\<close> is a non-empty string over the class, and
  \<^verbatim>\<open>parse_output\<close> raises exactly when one of the two sections it finds holds a token
  that \<^verbatim>\<open>float\<close> rejects.
\<close>

lemma py_error_eq: "((x :: py_error) = y) = True"
  by (cases x, cases y) simp

lemma match_time_class:
  "match_time s = Some (tok, rest) \<Longrightarrow> tok \<noteq> [] \<and> list_all in_class tok"
  by (auto simp: match_time_def Let_def list_all_takeWhile split: if_splits)

lemma findall_times_class:
  "tok \<in> set (findall_times s) \<Longrightarrow> tok \<noteq> [] \<and> list_all in_class tok"
proof (induction s rule: findall_times.induct)
  case 1
  then show ?case by simp
next
  case (2 c cs)
  then show ?case
    by (cases "match_time (c # cs)") (auto dest: match_time_class)
qed

lemma float_each_Inl:
  "float_each ms = Inl e \<longleftrightarrow> (\<exists>tok \<in> set ms. py_float tok = Inl e)"
  by (induction ms) (auto simp: py_error_eq split: sum.splits)

lemma extract_times_Inl:
  "extract_times sec = Inl e \<longleftrightarrow> (\<exists>tok \<in> set (findall_times sec). py_float tok = Inl e)"
  by (simp add: extract_times_def float_each_Inl)

lemma parse_output_Inl:
  "parse_output raw = Inl e \<longleftrightarrow>
     (\<exists>sec. (search_section SERIAL_OPEN SERIAL_CLOSE raw = Some sec \<or>
             search_section SCALE_OPEN SCALE_CLOSE raw = Some sec) \<and>
            extract_times sec = Inl e)"
  by (auto simp: parse_output_def parse_serial_def parse_scale_2m_def py_error_eq
      split: sum.splits option.splits)

subsection \<open>The handler\<close>

lemma validate_output_False:
  "validate_output raw = (False, reason) \<Longrightarrow>
     reason \<in> {MissingHeader, MissingFooter, MissingName}"
  by (auto simp: validate_output_def MissingHeader_def MissingFooter_def MissingName_def
      split: if_splits option.splits)

text \<open>The path on which the handler does write: a valid submission whose metrics parse
  is stored under its name.\<close>

lemma submit_accepts:
  assumes "validate_output raw = (True, name)" "parse_output raw = Inr m"
  shows "snd (submit now raw db) name =
     Some \<lparr>timestamp = (case search_field ''TIMESTAMP:'' raw of Some t \<Rightarrow> t | None \<Rightarrow> now),
           raw_output = raw, metrics = m\<rparr>"
  using assms by (simp add: submit_def Let_def)

subsection \<open>Evaluation on the sample reports\<close>

lemmas eval_defs = parse_output_def parse_serial_def parse_scale_2m_def compute_overall_def
  extract_times_def match_time_def match_section_def py_float_def split_sign_def
  digits_val_def digit_val_def is_space_def is_digit_def in_class_def
  SERIAL_OPEN_def SERIAL_CLOSE_def SCALE_OPEN_def SCALE_CLOSE_def

lemmas validate_defs = validate_output_def match_field_def HEADER_def FOOTER_def
  MissingHeader_def MissingFooter_def MissingName_def is_space_def sublist_code prefix_code

lemma serial_lines_times: "extract_times serial_lines = Inr [120.5]"
  by (simp add: serial_lines_def eval_defs)

lemma scale_lines3_times: "extract_times scale_lines3 = Inr [64.2, 30.1, 16]"
  by (simp add: scale_lines3_def eval_defs)

lemma scale_lines2_times: "extract_times scale_lines2 = Inr [64.2, 30.1]"
  by (simp add: scale_lines2_def eval_defs)

lemma scale_lines0_times: "extract_times scale_lines0 = Inr [64.2, 0, - 1]"
  by (simp add: scale_lines0_def eval_defs)

lemma report_full_scale: "search_section SCALE_OPEN SCALE_CLOSE report_full = Some scale_lines3"
  by (simp add: report_full_def serial_lines_def scale_lines3_def eval_defs)

lemma report_two_scale: "search_section SCALE_OPEN SCALE_CLOSE report_two = Some scale_lines2"
  by (simp add: report_two_def serial_lines_def scale_lines2_def eval_defs)

lemma report_zero_scale: "search_section SCALE_OPEN SCALE_CLOSE report_zero = Some scale_lines0"
  by (simp add: report_zero_def serial_lines_def scale_lines0_def eval_defs)

lemma report_full_parse: "parse_output report_full = Inr full_metrics"
  by (simp add: report_full_def serial_lines_def scale_lines3_def full_metrics_def eval_defs)

lemma report_two_parse: "parse_output report_two = Inr two_metrics"
  by (simp add: report_two_def serial_lines_def scale_lines2_def two_metrics_def eval_defs)

lemma report_zero_parse: "parse_output report_zero = Inr zero_metrics"
  by (simp add: report_zero_def serial_lines_def scale_lines0_def zero_metrics_def eval_defs)

lemma report_rs0_parse: "parse_output report_rs0 = Inr rs0_metrics"
  by (simp add: report_rs0_def scale_lines3_def rs0_metrics_def eval_defs)

lemma submission_ok_parse: "parse_output submission_ok = Inr full_metrics"
  by (simp add: submission_ok_def submission_head_def report_full_def serial_lines_def
      scale_lines3_def full_metrics_def HEADER_def FOOTER_def eval_defs)

lemma submission_no_footer_invalid:
  "validate_output submission_no_footer = (False, MissingFooter)"
  by (simp add: submission_no_footer_def validate_defs)

lemma submission_no_name_invalid:
  "validate_output submission_no_name = (False, MissingName)"
  by (simp add: submission_no_name_def validate_defs)

lemma empty_invalid: "validate_output '''' = (False, MissingHeader)"
  by (simp add: validate_defs)

section \<open>The claims\<close>

subsection \<open>The overall score\<close>

text \<open>
  Claim C1. In the mapping \<^verbatim>\<open>parse_output\<close> returns, the key \<^verbatim>\<open>overall\<close> is present if
  and only if \<^verbatim>\<open>PE1\<close>, \<^verbatim>\<open>PE2\<close> and \<^verbatim>\<open>RS1e5\<close> are all present and \<^verbatim>\<open>RS1e5 > 0\<close>, and
  its value is then \<^verbatim>\<open>0.4*PE1 + 0.4*PE2 + 0.2*(1.0/RS1e5)\<close>.
\<close>

theorem overall_iff:
  assumes "parse_output text = Inr m"
  shows "m ''overall'' = Some v \<longleftrightarrow>
     (\<exists>pe1 pe2 rs. m ''PE1'' = Some pe1 \<and> m ''PE2'' = Some pe2 \<and> m ''RS1e5'' = Some rs \<and> rs > 0
        \<and> v = 0.4 * pe1 + 0.4 * pe2 + 0.2 * (1.0 / rs))"
proof -
  obtain m1 m2 where s: "parse_serial text Map.empty = Inr m1"
    and c: "parse_scale_2m text m1 = Inr m2" and m: "m = compute_overall m2"
    using assms by (auto simp: parse_output_Inr)
  have "m1 ''overall'' = None" using parse_serial_other [OF s, of "''overall''"] by simp
  then have "m2 ''overall'' = None" using parse_scale_2m_other [OF c, of "''overall''"] by simp
  then show ?thesis
    unfolding m by (simp add: compute_overall_key compute_overall_other)
qed

text \<open>On the first scenario the three keys are present, the serial timing is positive and
  the score is the value of the formula; with a serial timing of zero both efficiencies
  are present and the score is not.\<close>

theorem overall_iff_witness:
  "parse_output report_full = Inr full_metrics
   \<and> full_metrics ''PE1'' = Some (64.2 / (2 * 30.1))
   \<and> full_metrics ''PE2'' = Some (30.1 / (2 * 16))
   \<and> full_metrics ''RS1e5'' = Some 120.5
   \<and> full_metrics ''overall'' =
       Some (0.4 * (64.2 / (2 * 30.1)) + 0.4 * (30.1 / (2 * 16)) + 0.2 * (1.0 / 120.5))
   \<and> parse_output report_rs0 = Inr rs0_metrics
   \<and> rs0_metrics ''PE1'' = Some (64.2 / (2 * 30.1))
   \<and> rs0_metrics ''PE2'' = Some (30.1 / (2 * 16))
   \<and> rs0_metrics ''RS1e5'' = Some 0
   \<and> rs0_metrics ''overall'' = None"
proof -
  have full: "full_metrics ''PE1'' = Some (64.2 / (2 * 30.1))"
    "full_metrics ''PE2'' = Some (30.1 / (2 * 16))" "full_metrics ''RS1e5'' = Some 120.5"
    by (simp_all add: full_metrics_def)
  have rs0: "rs0_metrics ''PE1'' = Some (64.2 / (2 * 30.1))"
    "rs0_metrics ''PE2'' = Some (30.1 / (2 * 16))" "rs0_metrics ''RS1e5'' = Some 0"
    by (simp_all add: rs0_metrics_def)
  have "\<exists>pe1 pe2 rs. full_metrics ''PE1'' = Some pe1 \<and> full_metrics ''PE2'' = Some pe2 \<and>
      full_metrics ''RS1e5'' = Some rs \<and> 0 < rs \<and>
      0.4 * (64.2 / (2 * 30.1)) + 0.4 * (30.1 / (2 * 16)) + 0.2 * (1.0 / 120.5) =
        0.4 * pe1 + 0.4 * pe2 + 0.2 * (1.0 / rs)"
    using full by (intro exI [of _ "64.2 / (2 * 30.1)"] exI [of _ "30.1 / (2 * 16)"]
        exI [of _ "120.5"]) simp
  then have "full_metrics ''overall'' =
      Some (0.4 * (64.2 / (2 * 30.1)) + 0.4 * (30.1 / (2 * 16)) + 0.2 * (1.0 / 120.5))"
    by (rule iffD2 [OF overall_iff [OF report_full_parse]])
  moreover have "rs0_metrics ''overall'' \<noteq> Some v" for v
  proof
    assume "rs0_metrics ''overall'' = Some v"
    then obtain rs where "rs0_metrics ''RS1e5'' = Some rs" "0 < rs"
      using iffD1 [OF overall_iff [OF report_rs0_parse]] by blast
    then show False using rs0(3) by simp
  qed
  then have "rs0_metrics ''overall'' = None" by (cases "rs0_metrics ''overall''") auto
  ultimately show ?thesis using full rs0 report_full_parse report_rs0_parse by simp
qed

subsection \<open>Malformed tokens\<close>

text \<open>
  Claim C2 says that \<^verbatim>\<open>parse_output\<close> never fails, malformed numeric tokens after
  \<^verbatim>\<open>Simulation Time =\<close> included. The class \<^verbatim>\<open>[\d.eE+-]+\<close> admits tokens that
  \<^verbatim>\<open>float\<close> rejects, and nothing catches the \<^verbatim>\<open>ValueError\<close>: on a serial section whose
  token is \<^verbatim>\<open>1.2.3\<close> the function raises.
\<close>

theorem parse_output_malformed: "parse_output report_malformed = Inl ValueError"
  by (simp add: report_malformed_def eval_defs)

subsection \<open>The scaling section\<close>

text \<open>
  Claim C3. When the scan of the scaling section finds at least three timing values,
  the first three are recorded as \<^verbatim>\<open>T_2M_64\<close>, \<^verbatim>\<open>T_2M_128\<close> and \<^verbatim>\<open>T_2M_256\<close>, in this
  order. When it finds fewer than three (or there is no scaling section to scan), none
  of \<^verbatim>\<open>T_2M_64\<close>, \<^verbatim>\<open>T_2M_128\<close>, \<^verbatim>\<open>T_2M_256\<close>, \<^verbatim>\<open>PE1\<close>, \<^verbatim>\<open>PE2\<close> and \<^verbatim>\<open>overall\<close> is in
  the result.
\<close>

theorem scale_threshold:
  assumes "parse_output text = Inr m"
  shows "(\<forall>sec tms. search_section SCALE_OPEN SCALE_CLOSE text = Some sec \<and>
            extract_times sec = Inr tms \<and> 3 \<le> length tms \<longrightarrow>
            m ''T_2M_64'' = Some (tms ! 0) \<and> m ''T_2M_128'' = Some (tms ! 1) \<and>
            m ''T_2M_256'' = Some (tms ! 2))
       \<and> (search_section SCALE_OPEN SCALE_CLOSE text = None \<or>
          (\<exists>sec tms. search_section SCALE_OPEN SCALE_CLOSE text = Some sec \<and>
             extract_times sec = Inr tms \<and> length tms < 3) \<longrightarrow>
          m ''T_2M_64'' = None \<and> m ''T_2M_128'' = None \<and> m ''T_2M_256'' = None \<and>
          m ''PE1'' = None \<and> m ''PE2'' = None \<and> m ''overall'' = None)"
proof -
  have enough: "m ''T_2M_64'' = Some (tms ! 0) \<and> m ''T_2M_128'' = Some (tms ! 1) \<and>
      m ''T_2M_256'' = Some (tms ! 2)"
    if "search_section SCALE_OPEN SCALE_CLOSE text = Some sec" "extract_times sec = Inr tms"
      "3 \<le> length tms" for sec tms
    using parse_output_enough(1-3) [OF assms that] by simp
  have short: "m ''T_2M_64'' = None \<and> m ''T_2M_128'' = None \<and> m ''T_2M_256'' = None \<and>
      m ''PE1'' = None \<and> m ''PE2'' = None \<and> m ''overall'' = None"
    if h: "search_section SCALE_OPEN SCALE_CLOSE text = None \<or>
      (\<exists>sec tms. search_section SCALE_OPEN SCALE_CLOSE text = Some sec \<and>
         extract_times sec = Inr tms \<and> length tms < 3)"
    using parse_output_short [OF assms h, of "''T_2M_64''"]
      parse_output_short [OF assms h, of "''T_2M_128''"]
      parse_output_short [OF assms h, of "''T_2M_256''"]
      parse_output_short [OF assms h, of "''PE1''"]
      parse_output_short [OF assms h, of "''PE2''"]
      parse_output_short [OF assms h, of "''overall''"]
    by simp
  show ?thesis using enough short by blast
qed

text \<open>Three values on the first scenario, two on the second sample.\<close>

theorem scale_threshold_witness:
  "parse_output report_full = Inr full_metrics
   \<and> search_section SCALE_OPEN SCALE_CLOSE report_full = Some scale_lines3
   \<and> extract_times scale_lines3 = Inr [64.2, 30.1, 16]
   \<and> 3 \<le> length [64.2, 30.1, 16 :: real]
   \<and> full_metrics ''T_2M_64'' = Some 64.2
   \<and> full_metrics ''T_2M_128'' = Some 30.1
   \<and> full_metrics ''T_2M_256'' = Some 16
   \<and> parse_output report_two = Inr two_metrics
   \<and> search_section SCALE_OPEN SCALE_CLOSE report_two = Some scale_lines2
   \<and> extract_times scale_lines2 = Inr [64.2, 30.1]
   \<and> length [64.2, 30.1 :: real] < 3
   \<and> two_metrics ''T_2M_64'' = None \<and> two_metrics ''T_2M_128'' = None
   \<and> two_metrics ''T_2M_256'' = None \<and> two_metrics ''PE1'' = None
   \<and> two_metrics ''PE2'' = None \<and> two_metrics ''overall'' = None"
  using scale_threshold [OF report_full_parse] scale_threshold [OF report_two_parse]
    report_full_parse report_full_scale scale_lines3_times
    report_two_parse report_two_scale scale_lines2_times
  by simp

subsection \<open>The parallel efficiencies\<close>

text \<open>
  Claim C4. When the scaling section yields at least three timing values, \<^verbatim>\<open>PE1\<close> is
  present exactly when \<^verbatim>\<open>T_2M_128 > 0\<close>, with the value \<^verbatim>\<open>T_2M_64 / (2 * T_2M_128)\<close>,
  and \<^verbatim>\<open>PE2\<close> is present exactly when \<^verbatim>\<open>T_2M_256 > 0\<close>, with the value
  \<^verbatim>\<open>T_2M_128 / (2 * T_2M_256)\<close>. \<^verbatim>\<open>PE1\<close> or \<^verbatim>\<open>PE2\<close> is present only if at least three
  timing values were found in the scaling section and its divisor timing is nonzero.
\<close>

theorem efficiencies:
  assumes "parse_output text = Inr m"
  shows "(\<forall>sec tms. search_section SCALE_OPEN SCALE_CLOSE text = Some sec \<and>
            extract_times sec = Inr tms \<and> 3 \<le> length tms \<longrightarrow>
            (\<exists>t64 t128 t256.
               m ''T_2M_64'' = Some t64 \<and> m ''T_2M_128'' = Some t128 \<and>
               m ''T_2M_256'' = Some t256 \<and>
               m ''PE1'' = (if 0 < t128 then Some (t64 / (2 * t128)) else None) \<and>
               m ''PE2'' = (if 0 < t256 then Some (t128 / (2 * t256)) else None)))
       \<and> (m ''PE1'' \<noteq> None \<or> m ''PE2'' \<noteq> None \<longrightarrow>
            (\<exists>sec tms. search_section SCALE_OPEN SCALE_CLOSE text = Some sec \<and>
               extract_times sec = Inr tms \<and> 3 \<le> length tms))
       \<and> (m ''PE1'' \<noteq> None \<longrightarrow> (\<exists>t128. m ''T_2M_128'' = Some t128 \<and> t128 \<noteq> 0))
       \<and> (m ''PE2'' \<noteq> None \<longrightarrow> (\<exists>t256. m ''T_2M_256'' = Some t256 \<and> t256 \<noteq> 0))"
proof -
  have enough: "m ''T_2M_64'' = Some (tms ! 0) \<and> m ''T_2M_128'' = Some (tms ! 1) \<and>
      m ''T_2M_256'' = Some (tms ! 2) \<and>
      m ''PE1'' = (if 0 < tms ! 1 then Some (tms ! 0 / (2 * tms ! 1)) else None) \<and>
      m ''PE2'' = (if 0 < tms ! 2 then Some (tms ! 1 / (2 * tms ! 2)) else None)"
    if "search_section SCALE_OPEN SCALE_CLOSE text = Some sec" "extract_times sec = Inr tms"
      "3 \<le> length tms" for sec tms
    using parse_output_enough [OF assms that] by simp
  have short: "m ''PE1'' = None \<and> m ''PE2'' = None"
    if h: "search_section SCALE_OPEN SCALE_CLOSE text = None \<or>
      (\<exists>sec tms. search_section SCALE_OPEN SCALE_CLOSE text = Some sec \<and>
         extract_times sec = Inr tms \<and> length tms < 3)"
    using parse_output_short [OF assms h, of "''PE1''"]
      parse_output_short [OF assms h, of "''PE2''"] by simp
  have A: "\<forall>sec tms. search_section SCALE_OPEN SCALE_CLOSE text = Some sec \<and>
            extract_times sec = Inr tms \<and> 3 \<le> length tms \<longrightarrow>
            (\<exists>t64 t128 t256.
               m ''T_2M_64'' = Some t64 \<and> m ''T_2M_128'' = Some t128 \<and>
               m ''T_2M_256'' = Some t256 \<and>
               m ''PE1'' = (if 0 < t128 then Some (t64 / (2 * t128)) else None) \<and>
               m ''PE2'' = (if 0 < t256 then Some (t128 / (2 * t256)) else None))"
    using enough by blast
  have B: "\<exists>sec tms. search_section SCALE_OPEN SCALE_CLOSE text = Some sec \<and>
               extract_times sec = Inr tms \<and> 3 \<le> length tms"
    if "m ''PE1'' \<noteq> None \<or> m ''PE2'' \<noteq> None"
    using parse_output_scanned [OF assms] short that by blast
  have C: "\<exists>t128. m ''T_2M_128'' = Some t128 \<and> t128 \<noteq> 0" if p: "m ''PE1'' \<noteq> None"
  proof -
    obtain sec tms where h: "search_section SCALE_OPEN SCALE_CLOSE text = Some sec"
      "extract_times sec = Inr tms" "3 \<le> length tms" using B p by blast
    from enough [OF h] p show ?thesis by (auto split: if_splits)
  qed
  have D: "\<exists>t256. m ''T_2M_256'' = Some t256 \<and> t256 \<noteq> 0" if p: "m ''PE2'' \<noteq> None"
  proof -
    obtain sec tms where h: "search_section SCALE_OPEN SCALE_CLOSE text = Some sec"
      "extract_times sec = Inr tms" "3 \<le> length tms" using B p by blast
    from enough [OF h] p show ?thesis by (auto split: if_splits)
  qed
  show ?thesis using A B C D by blast
qed

text \<open>Both divisors positive on the first scenario; a zero and a negative divisor on the
  third sample.\<close>

theorem efficiencies_witness:
  "parse_output report_full = Inr full_metrics
   \<and> search_section SCALE_OPEN SCALE_CLOSE report_full = Some scale_lines3
   \<and> extract_times scale_lines3 = Inr [64.2, 30.1, 16]
   \<and> 3 \<le> length [64.2, 30.1, 16 :: real]
   \<and> (\<exists>t64 t128 t256.
         full_metrics ''T_2M_64'' = Some t64 \<and> full_metrics ''T_2M_128'' = Some t128 \<and>
         full_metrics ''T_2M_256'' = Some t256 \<and> 0 < t128 \<and> 0 < t256 \<and>
         full_metrics ''PE1'' = Some (t64 / (2 * t128)) \<and>
         full_metrics ''PE2'' = Some (t128 / (2 * t256)))
   \<and> parse_output report_zero = Inr zero_metrics
   \<and> search_section SCALE_OPEN SCALE_CLOSE report_zero = Some scale_lines0
   \<and> extract_times scale_lines0 = Inr [64.2, 0, - 1]
   \<and> 3 \<le> length [64.2, 0, - 1 :: real]
   \<and> zero_metrics ''PE1'' = None \<and> zero_metrics ''PE2'' = None"
proof -
  have z: "zero_metrics ''T_2M_128'' = Some 0" "zero_metrics ''T_2M_256'' = Some (- 1)"
    by (simp_all add: zero_metrics_def)
  have f: "full_metrics ''T_2M_128'' = Some 30.1" "full_metrics ''T_2M_256'' = Some 16"
    by (simp_all add: full_metrics_def)
  have "\<exists>t64 t128 t256.
         full_metrics ''T_2M_64'' = Some t64 \<and> full_metrics ''T_2M_128'' = Some t128 \<and>
         full_metrics ''T_2M_256'' = Some t256 \<and> 0 < t128 \<and> 0 < t256 \<and>
         full_metrics ''PE1'' = Some (t64 / (2 * t128)) \<and>
         full_metrics ''PE2'' = Some (t128 / (2 * t256))"
    using efficiencies [OF report_full_parse] report_full_scale scale_lines3_times f
    by auto
  moreover have "zero_metrics ''PE1'' = None \<and> zero_metrics ''PE2'' = None"
    using efficiencies [OF report_zero_parse] report_zero_scale scale_lines0_times z
    by auto
  ultimately show ?thesis
    using report_full_parse report_full_scale scale_lines3_times
      report_zero_parse report_zero_scale scale_lines0_times by simp
qed

subsection \<open>Raw timings without efficiencies\<close>

text \<open>
  Claim C10. Whenever the scan of the scaling section yields at least three timing
  values, the keys \<^verbatim>\<open>T_2M_64\<close>, \<^verbatim>\<open>T_2M_128\<close> and \<^verbatim>\<open>T_2M_256\<close> are all in the result,
  whatever the values are, also when \<^verbatim>\<open>PE1\<close> or \<^verbatim>\<open>PE2\<close> is left out because its
  divisor is not strictly positive; so a result can hold the raw scaling timings and no
  efficiency key.
\<close>

theorem timings_without_efficiencies:
  "(\<forall>text m sec tms.
       parse_output text = Inr m \<and> search_section SCALE_OPEN SCALE_CLOSE text = Some sec \<and>
       extract_times sec = Inr tms \<and> 3 \<le> length tms \<longrightarrow>
       m ''T_2M_64'' \<noteq> None \<and> m ''T_2M_128'' \<noteq> None \<and> m ''T_2M_256'' \<noteq> None \<and>
       (\<not> 0 < tms ! 1 \<longrightarrow> m ''PE1'' = None) \<and> (\<not> 0 < tms ! 2 \<longrightarrow> m ''PE2'' = None))
   \<and> (\<exists>text m. parse_output text = Inr m \<and>
         m ''T_2M_64'' \<noteq> None \<and> m ''T_2M_128'' \<noteq> None \<and> m ''T_2M_256'' \<noteq> None \<and>
         m ''PE1'' = None \<and> m ''PE2'' = None)"
proof (intro conjI allI impI)
  fix raw m sec tms
  assume h: "parse_output raw = Inr m \<and> search_section SCALE_OPEN SCALE_CLOSE raw = Some sec \<and>
       extract_times sec = Inr tms \<and> 3 \<le> length tms"
  then have e: "m ''T_2M_64'' = Some (tms ! 0)" "m ''T_2M_128'' = Some (tms ! 1)"
    "m ''T_2M_256'' = Some (tms ! 2)"
    "m ''PE1'' = (if 0 < tms ! 1 then Some (tms ! 0 / (2 * tms ! 1)) else None)"
    "m ''PE2'' = (if 0 < tms ! 2 then Some (tms ! 1 / (2 * tms ! 2)) else None)"
    using parse_output_enough [of raw m sec tms] by blast+
  show "m ''T_2M_64'' \<noteq> None" "m ''T_2M_128'' \<noteq> None" "m ''T_2M_256'' \<noteq> None"
    using e(1-3) by simp_all
  show "m ''PE1'' = None" if "\<not> 0 < tms ! 1" using e(4) that by simp
  show "m ''PE2'' = None" if "\<not> 0 < tms ! 2" using e(5) that by simp
next
  have "zero_metrics ''T_2M_64'' \<noteq> None \<and> zero_metrics ''T_2M_128'' \<noteq> None \<and>
      zero_metrics ''T_2M_256'' \<noteq> None \<and> zero_metrics ''PE1'' = None \<and>
      zero_metrics ''PE2'' = None"
    by (simp add: zero_metrics_def)
  then show "\<exists>text m. parse_output text = Inr m \<and>
         m ''T_2M_64'' \<noteq> None \<and> m ''T_2M_128'' \<noteq> None \<and> m ''T_2M_256'' \<noteq> None \<and>
         m ''PE1'' = None \<and> m ''PE2'' = None"
    using report_zero_parse by blast
qed

text \<open>The third sample: timings 64.2, 0 and -1.\<close>

theorem timings_without_efficiencies_witness:
  "parse_output report_zero = Inr zero_metrics
   \<and> search_section SCALE_OPEN SCALE_CLOSE report_zero = Some scale_lines0
   \<and> extract_times scale_lines0 = Inr [64.2, 0, - 1]
   \<and> 3 \<le> length [64.2, 0, - 1 :: real]
   \<and> \<not> 0 < [64.2, 0, - 1 :: real] ! 1 \<and> \<not> 0 < [64.2, 0, - 1 :: real] ! 2
   \<and> zero_metrics ''T_2M_64'' \<noteq> None \<and> zero_metrics ''T_2M_128'' \<noteq> None
   \<and> zero_metrics ''T_2M_256'' \<noteq> None
   \<and> zero_metrics ''PE1'' = None \<and> zero_metrics ''PE2'' = None"
proof -
  have h: "parse_output report_zero = Inr zero_metrics \<and>
      search_section SCALE_OPEN SCALE_CLOSE report_zero = Some scale_lines0 \<and>
      extract_times scale_lines0 = Inr [64.2, 0, - 1] \<and> 3 \<le> length [64.2, 0, - 1 :: real]"
    using report_zero_parse report_zero_scale scale_lines0_times by simp
  have t: "\<forall>text m sec tms.
       parse_output text = Inr m \<and> search_section SCALE_OPEN SCALE_CLOSE text = Some sec \<and>
       extract_times sec = Inr tms \<and> 3 \<le> length tms \<longrightarrow>
       m ''T_2M_64'' \<noteq> None \<and> m ''T_2M_128'' \<noteq> None \<and> m ''T_2M_256'' \<noteq> None \<and>
       (\<not> 0 < tms ! 1 \<longrightarrow> m ''PE1'' = None) \<and> (\<not> 0 < tms ! 2 \<longrightarrow> m ''PE2'' = None)"
    using timings_without_efficiencies by (rule conjunct1)
  have "zero_metrics ''T_2M_64'' \<noteq> None \<and> zero_metrics ''T_2M_128'' \<noteq> None \<and>
      zero_metrics ''T_2M_256'' \<noteq> None \<and>
      (\<not> 0 < [64.2, 0, - 1 :: real] ! 1 \<longrightarrow> zero_metrics ''PE1'' = None) \<and>
      (\<not> 0 < [64.2, 0, - 1 :: real] ! 2 \<longrightarrow> zero_metrics ''PE2'' = None)"
    using t h by blast
  then show ?thesis using h by simp
qed

subsection \<open>The serial section\<close>

text \<open>
  Claim C5, as amended. The serial section is the first substring that opens with the
  marker \<^verbatim>\<open>--- SERIAL ---\<close> immediately followed by a line break and closes with the
  marker \<^verbatim>\<open>--- END SERIAL ---\<close>; the captured region is everything between that line
  break and the first closing marker after it (the shortest span, over any number of
  lines); and if the scan of that region finds at least one value, the first one is
  recorded as \<^verbatim>\<open>RS1e5\<close> in the mapping \<^verbatim>\<open>parse_output\<close> returns.
\<close>

theorem serial_section:
  "(search_section SERIAL_OPEN SERIAL_CLOSE text = Some region \<longleftrightarrow>
      (\<exists>pre post. text = pre @ SERIAL_OPEN @ region @ SERIAL_CLOSE @ post \<and>
         \<not> sublist SERIAL_OPEN (pre @ butlast SERIAL_OPEN) \<and>
         \<not> sublist SERIAL_CLOSE (region @ butlast SERIAL_CLOSE)))
   \<and> (\<forall>v vs m. search_section SERIAL_OPEN SERIAL_CLOSE text = Some region \<and>
         extract_times region = Inr (v # vs) \<and> parse_output text = Inr m \<longrightarrow>
         m ''RS1e5'' = Some v)"
proof -
  have ne: "SERIAL_OPEN \<noteq> []" "SERIAL_CLOSE \<noteq> []"
    by (simp_all add: SERIAL_OPEN_def SERIAL_CLOSE_def)
  have A: "search_section SERIAL_OPEN SERIAL_CLOSE text = Some region \<longleftrightarrow>
      (\<exists>pre post. text = pre @ SERIAL_OPEN @ region @ SERIAL_CLOSE @ post \<and>
         \<not> sublist SERIAL_OPEN (pre @ butlast SERIAL_OPEN) \<and>
         \<not> sublist SERIAL_CLOSE (region @ butlast SERIAL_CLOSE))"
    by (rule search_section_iff [OF ne])
  have B: "\<forall>v vs m. search_section SERIAL_OPEN SERIAL_CLOSE text = Some region \<and>
         extract_times region = Inr (v # vs) \<and> parse_output text = Inr m \<longrightarrow>
         m ''RS1e5'' = Some v"
  proof (intro allI impI)
    fix v vs m
    assume h: "search_section SERIAL_OPEN SERIAL_CLOSE text = Some region \<and>
         extract_times region = Inr (v # vs) \<and> parse_output text = Inr m"
    show "m ''RS1e5'' = Some v"
      by (rule parse_output_serial [of "text" m region v vs]) (use h in simp_all)
  qed
  show ?thesis by (rule conjI [OF A B])
qed

text \<open>The complete submission, cut at its serial section.\<close>

theorem serial_section_witness:
  "submission_ok = submission_head @ SERIAL_OPEN @ serial_lines @ SERIAL_CLOSE @ report_tail
   \<and> \<not> sublist SERIAL_OPEN (submission_head @ butlast SERIAL_OPEN)
   \<and> \<not> sublist SERIAL_CLOSE (serial_lines @ butlast SERIAL_CLOSE)
   \<and> search_section SERIAL_OPEN SERIAL_CLOSE submission_ok = Some serial_lines
   \<and> extract_times serial_lines = Inr [120.5]
   \<and> parse_output submission_ok = Inr full_metrics
   \<and> full_metrics ''RS1e5'' = Some 120.5"
proof -
  have a: "submission_ok = submission_head @ SERIAL_OPEN @ serial_lines @ SERIAL_CLOSE @ report_tail"
    by (simp add: submission_ok_def report_tail_def report_full_def)
  have b: "\<not> sublist SERIAL_OPEN (submission_head @ butlast SERIAL_OPEN)"
    by (simp add: submission_head_def HEADER_def SERIAL_OPEN_def sublist_code prefix_code)
  have c: "\<not> sublist SERIAL_CLOSE (serial_lines @ butlast SERIAL_CLOSE)"
    by (simp add: serial_lines_def SERIAL_CLOSE_def sublist_code prefix_code)
  note t = serial_section [of submission_ok serial_lines]
  have "\<exists>pre post. submission_ok = pre @ SERIAL_OPEN @ serial_lines @ SERIAL_CLOSE @ post \<and>
         \<not> sublist SERIAL_OPEN (pre @ butlast SERIAL_OPEN) \<and>
         \<not> sublist SERIAL_CLOSE (serial_lines @ butlast SERIAL_CLOSE)"
    using a b c by (intro exI [of _ submission_head] exI [of _ report_tail] conjI)
  then have s: "search_section SERIAL_OPEN SERIAL_CLOSE submission_ok = Some serial_lines"
    by (rule iffD2 [OF conjunct1 [OF t]])
  have "search_section SERIAL_OPEN SERIAL_CLOSE submission_ok = Some serial_lines \<and>
      extract_times serial_lines = Inr [120.5] \<and> parse_output submission_ok = Inr full_metrics"
    using s serial_lines_times submission_ok_parse by (intro conjI)
  then have "full_metrics ''RS1e5'' = Some 120.5"
    using conjunct2 [OF t] by blast
  then show ?thesis using a b c s serial_lines_times submission_ok_parse by simp
qed

text \<open>
  Claim C5 as stated takes the bare marker \<^verbatim>\<open>--- SERIAL ---\<close> as the opening delimiter.
  With a space between the marker and the line break the two markers still delimit a
  region whose scan finds the value 1, and no \<^verbatim>\<open>RS1e5\<close> is recorded.
\<close>

theorem serial_section_counterexample:
  "report_trailing =
     ''--- SERIAL ---'' @ '' \<newline>Simulation Time = 1 seconds\<newline>'' @ ''--- END SERIAL ---''
   \<and> extract_times '' \<newline>Simulation Time = 1 seconds\<newline>'' = Inr [1]
   \<and> parse_output report_trailing = Inr Map.empty"
  by (simp add: report_trailing_def eval_defs)

subsection \<open>The submitter name\<close>

text \<open>
  Claim C6, as amended. When both markers are present, \<^verbatim>\<open>validate_output\<close> fails with
  \<^verbatim>\<open>MissingName\<close> exactly when no part of the text is \<^verbatim>\<open>LEADERBOARD_NAME:\<close> followed by
  any number of whitespace characters (none included) and a non-whitespace character.
  When both markers are present and the first \<^verbatim>\<open>LEADERBOARD_NAME:\<close> of the text is
  followed by whitespace \<open>ws\<close> (possibly none) and a token \<open>X\<close> of non-whitespace
  characters that ends at a whitespace character or at the end of the text, validation
  succeeds and returns \<open>X\<close> as it stands.
\<close>

theorem validate_name:
  assumes "sublist HEADER text" and "sublist FOOTER text"
  shows "(validate_output text = (False, MissingName) \<longleftrightarrow>
            \<not> (\<exists>pre ws c rest. text = pre @ ''LEADERBOARD_NAME:'' @ ws @ c # rest \<and>
                  list_all is_space ws \<and> \<not> is_space c))
     \<and> (\<forall>pre ws X rest.
           text = pre @ ''LEADERBOARD_NAME:'' @ ws @ X @ rest \<and>
           \<not> sublist ''LEADERBOARD_NAME:'' (pre @ butlast ''LEADERBOARD_NAME:'') \<and>
           list_all is_space ws \<and> X \<noteq> [] \<and> list_all (\<lambda>c. \<not> is_space c) X \<and>
           (rest = [] \<or> is_space (hd rest)) \<longrightarrow>
           validate_output text = (True, X))"
proof -
  have v: "validate_output text =
      (case search_field ''LEADERBOARD_NAME:'' text of
         None \<Rightarrow> (False, ''Missing LEADERBOARD_NAME'') | Some name \<Rightarrow> (True, name))"
    using assms by (simp add: validate_output_def)
  have "validate_output text = (False, MissingName) \<longleftrightarrow>
      search_field ''LEADERBOARD_NAME:'' text = None"
    by (simp add: v MissingName_def split: option.splits)
  then have A: "validate_output text = (False, MissingName) \<longleftrightarrow>
            \<not> (\<exists>pre ws c rest. text = pre @ ''LEADERBOARD_NAME:'' @ ws @ c # rest \<and>
                  list_all is_space ws \<and> \<not> is_space c)"
    by (simp only: search_field_None)
  have B: "validate_output text = (True, X)"
    if "text = pre @ ''LEADERBOARD_NAME:'' @ ws @ X @ rest"
      "\<not> sublist ''LEADERBOARD_NAME:'' (pre @ butlast ''LEADERBOARD_NAME:'')"
      "list_all is_space ws" "X \<noteq> []" "list_all (\<lambda>c. \<not> is_space c) X"
      "rest = [] \<or> is_space (hd rest)" for pre ws X rest
  proof -
    have "search_field ''LEADERBOARD_NAME:'' text = Some X"
      unfolding that(1) using that(2-6) by (rule search_field_first)
    then show ?thesis by (simp add: v)
  qed
  show ?thesis using A B by blast
qed

text \<open>The complete submission, cut at its name field, and the submission whose name
  field is followed by whitespace only.\<close>

theorem validate_name_witness:
  "sublist HEADER submission_ok \<and> sublist FOOTER submission_ok
   \<and> submission_ok =
       (HEADER @ ''\<newline>'') @ ''LEADERBOARD_NAME:'' @ '' '' @ ''Alice-01!'' @ submission_tail
   \<and> \<not> sublist ''LEADERBOARD_NAME:'' ((HEADER @ ''\<newline>'') @ butlast ''LEADERBOARD_NAME:'')
   \<and> list_all is_space '' '' \<and> ''Alice-01!'' \<noteq> []
   \<and> list_all (\<lambda>c. \<not> is_space c) ''Alice-01!''
   \<and> is_space (hd submission_tail)
   \<and> validate_output submission_ok = (True, ''Alice-01!'')
   \<and> sublist HEADER submission_no_name \<and> sublist FOOTER submission_no_name
   \<and> validate_output submission_no_name = (False, MissingName)
   \<and> \<not> (\<exists>pre ws c rest. submission_no_name = pre @ ''LEADERBOARD_NAME:'' @ ws @ c # rest \<and>
           list_all is_space ws \<and> \<not> is_space c)"
proof -
  have "sublist FOOTER ((submission_head @ report_full) @ FOOTER @ ''\<newline>'')"
    by (rule sublist_appendI)
  then have h: "sublist HEADER submission_ok" "sublist FOOTER submission_ok"
    by (simp_all add: submission_ok_def submission_head_def)
  have d: "submission_ok =
       (HEADER @ ''\<newline>'') @ ''LEADERBOARD_NAME:'' @ '' '' @ ''Alice-01!'' @ submission_tail"
    by (simp add: submission_ok_def submission_head_def submission_tail_def)
  have f: "\<not> sublist ''LEADERBOARD_NAME:'' ((HEADER @ ''\<newline>'') @ butlast ''LEADERBOARD_NAME:'')"
    by (simp add: HEADER_def sublist_code prefix_code)
  have g: "list_all is_space '' ''" "''Alice-01!'' \<noteq> []"
    "list_all (\<lambda>c. \<not> is_space c) ''Alice-01!''" "is_space (hd submission_tail)"
    by (simp_all add: is_space_def submission_tail_def)
  have ok: "validate_output submission_ok = (True, ''Alice-01!'')"
    using validate_name [OF h] d f g by blast
  have "sublist FOOTER ((HEADER @ ''\<newline>'') @ FOOTER @ ''\<newline>LEADERBOARD_NAME: \<newline>'')"
    by (rule sublist_appendI)
  then have n: "sublist HEADER submission_no_name" "sublist FOOTER submission_no_name"
    by (simp_all add: submission_no_name_def)
  have "\<not> (\<exists>pre ws c rest. submission_no_name = pre @ ''LEADERBOARD_NAME:'' @ ws @ c # rest \<and>
           list_all is_space ws \<and> \<not> is_space c)"
    using validate_name [OF n] submission_no_name_invalid by blast
  then show ?thesis using h d f g ok n submission_no_name_invalid by simp
qed

text \<open>
  Claim C6 as stated puts no condition on the markers and asks for whitespace after
  the colon. The empty text matches the name pattern nowhere and fails with
  \<^verbatim>\<open>MissingHeader\<close>, which is not \<^verbatim>\<open>MissingName\<close>; and a text with both markers and the
  name right after the colon is valid.
\<close>

theorem validate_name_counterexample:
  "search_field ''LEADERBOARD_NAME:'' '''' = None
   \<and> validate_output '''' = (False, MissingHeader)
   \<and> MissingHeader \<noteq> MissingName
   \<and> validate_output submission_tight = (True, ''alice'')"
  by (simp add: submission_tight_def validate_defs)

subsection \<open>The markers\<close>

text \<open>
  Claim C7. A text that does not contain the opening marker fails validation with
  \<^verbatim>\<open>MissingHeader\<close>, whatever else it holds (also when the footer and the name are
  missing too); a text that contains the header and not the footer fails with
  \<^verbatim>\<open>MissingFooter\<close>.
\<close>

theorem validate_markers:
  "(\<not> sublist HEADER text \<longrightarrow> validate_output text = (False, MissingHeader))
   \<and> (sublist HEADER text \<and> \<not> sublist FOOTER text \<longrightarrow>
        validate_output text = (False, MissingFooter))"
  by (simp add: validate_output_def MissingHeader_def MissingFooter_def)

text \<open>The empty text (no header, no footer, no name), a text with footer and name and no
  header, and a text with header and name and no footer.\<close>

theorem validate_markers_witness:
  "\<not> sublist HEADER '''' \<and> \<not> sublist FOOTER ''''
   \<and> search_field ''LEADERBOARD_NAME:'' '''' = None
   \<and> validate_output '''' = (False, MissingHeader)
   \<and> \<not> sublist HEADER (FOOTER @ ''LEADERBOARD_NAME: carol'')
   \<and> validate_output (FOOTER @ ''LEADERBOARD_NAME: carol'') = (False, MissingHeader)
   \<and> sublist HEADER submission_no_footer \<and> \<not> sublist FOOTER submission_no_footer
   \<and> validate_output submission_no_footer = (False, MissingFooter)"
proof -
  have a: "\<not> sublist HEADER ''''" "\<not> sublist FOOTER ''''"
    "search_field ''LEADERBOARD_NAME:'' '''' = None"
    by (simp_all add: HEADER_def FOOTER_def match_field_def)
  have b: "\<not> sublist HEADER (FOOTER @ ''LEADERBOARD_NAME: carol'')"
    by (simp add: HEADER_def FOOTER_def sublist_code prefix_code)
  have c: "sublist HEADER submission_no_footer" "\<not> sublist FOOTER submission_no_footer"
    by (simp_all add: submission_no_footer_def HEADER_def FOOTER_def sublist_code prefix_code)
  show ?thesis
    using a b c validate_markers [of "''''"]
      validate_markers [of "FOOTER @ ''LEADERBOARD_NAME: carol''"]
      validate_markers [of submission_no_footer]
    by simp
qed

subsection \<open>Rejected submissions\<close>

text \<open>
  Claim C9. A submission whose text fails validation (with \<^verbatim>\<open>MissingHeader\<close>,
  \<^verbatim>\<open>MissingFooter\<close> or \<^verbatim>\<open>MissingName\<close>) is rejected by \<^verbatim>\<open>submit\<close> with that reason, and
  nothing is stored: the table after the call is the table before it.
\<close>

theorem submit_rejects:
  assumes "validate_output raw = (False, reason)"
  shows "reason \<in> {MissingHeader, MissingFooter, MissingName}
     \<and> submit now raw db = (Inr \<lparr>status_code = 400, json = [(''error'', reason)]\<rparr>, db)"
  using assms validate_output_False [OF assms] by (simp add: submit_def)

text \<open>One submission for each reason, against a table with one row.\<close>

theorem submit_rejects_witness:
  "validate_output submission_no_footer = (False, MissingFooter)
   \<and> submit ''2026-03-02T00:00:00+00:00'' submission_no_footer stored
       = (Inr \<lparr>status_code = 400, json = [(''error'', MissingFooter)]\<rparr>, stored)
   \<and> validate_output submission_no_name = (False, MissingName)
   \<and> submit ''2026-03-02T00:00:00+00:00'' submission_no_name stored
       = (Inr \<lparr>status_code = 400, json = [(''error'', MissingName)]\<rparr>, stored)
   \<and> validate_output '''' = (False, MissingHeader)
   \<and> submit ''2026-03-02T00:00:00+00:00'' '''' stored
       = (Inr \<lparr>status_code = 400, json = [(''error'', MissingHeader)]\<rparr>, stored)"
  using submit_rejects [OF submission_no_footer_invalid]
    submit_rejects [OF submission_no_name_invalid] submit_rejects [OF empty_invalid]
    submission_no_footer_invalid submission_no_name_invalid empty_invalid
  by simp

end
